theory Spec2Isabelle
  imports Complex_Main "HOL-Library.Sublist"
begin

section \<open>Python string primitives used by the program\<close>

text \<open>
  Strings are lists of characters. \<open>s.startswith(p)\<close> is \<^const>\<open>prefix\<close> \<open>p s\<close> and
  \<open>p in s\<close> is \<^const>\<open>sublist\<close> \<open>p s\<close> (a contiguous run), both from the library.
\<close>

definition newline :: string where
  "newline = [CHR 0x0A]"

definition quote :: string where
  "quote = [CHR 0x27]"

text \<open>
  \<open>str.count(sub)\<close>: the number of non-overlapping occurrences, scanning from the left;
  after a match the scan resumes behind it. The empty string is counted once between
  every two characters and at both ends.
\<close>

function py_count :: "string \<Rightarrow> string \<Rightarrow> nat" where
  "py_count sub s =
     (if sub = [] then length s + 1
      else if s = [] then 0
      else if prefix sub s then 1 + py_count sub (drop (length sub) s)
      else py_count sub (tl s))"
  by pat_completeness auto
termination
  by (relation "measure (\<lambda>(sub, s). length s)") auto

declare py_count.simps [simp del]

text \<open>\<open>str.replace(old, new, 1)\<close>: only the leftmost occurrence is replaced.\<close>

fun py_replace1 :: "string \<Rightarrow> string \<Rightarrow> string \<Rightarrow> string" where
  "py_replace1 old new [] = (if old = [] then new else [])"
| "py_replace1 old new (c # cs) =
     (if prefix old (c # cs) then new @ drop (length old) (c # cs)
      else c # py_replace1 old new cs)"

text \<open>
  The number of offsets of \<open>s\<close> at which \<open>sub\<close> starts: every occurrence counts, also
  one that overlaps another. This is the notion the properties below speak about.
\<close>

definition occurrences :: "string \<Rightarrow> string \<Rightarrow> nat" where
  "occurrences sub s = length (filter (\<lambda>i. prefix sub (drop i s)) [0..<Suc (length s)])"

text \<open>
  What the user types at a prompt is a text of Unicode code points, here a list of
  numbers. \<open>str.strip()\<close> removes from both ends the code points that Python counts as
  white space: those of ASCII and U+0085, U+00A0, U+1680, U+2000 to U+200A, U+2028,
  U+2029, U+202F, U+205F and U+3000.
\<close>

definition code_points :: "string \<Rightarrow> nat list" where
  "code_points s = map of_char s"

definition py_isspace :: "nat \<Rightarrow> bool" where
  "py_isspace n =
     ((9 \<le> n \<and> n \<le> 13) \<or> (28 \<le> n \<and> n \<le> 32) \<or> n = 133 \<or> n = 160 \<or> n = 5760
      \<or> (8192 \<le> n \<and> n \<le> 8202) \<or> n = 8232 \<or> n = 8233 \<or> n = 8239 \<or> n = 8287 \<or> n = 12288)"

definition strip :: "nat list \<Rightarrow> nat list" where
  "strip s = rev (dropWhile py_isspace (rev (dropWhile py_isspace s)))"

text \<open>
  \<open>str.lower()\<close> of an answer: the letters A to Z become a to z. Other code points are
  left as they are here. Python lowers some of them too, but it maps no code point other
  than U+0059 to \<open>y\<close> and never empties a text, so the answer of the model is \<open>y\<close>, or
  is empty, exactly when the answer of the program is: these are the two tests made of it.
\<close>

definition lower_points :: "nat list \<Rightarrow> nat list" where
  "lower_points s = map (\<lambda>n. if 65 \<le> n \<and> n \<le> 90 then n + 32 else n) s"

text \<open>\<open>str.lower()\<close> of a file name, on the ASCII range.\<close>

definition lower_char :: "char \<Rightarrow> char" where
  "lower_char c =
     (let n = (of_char c :: nat) in if 65 \<le> n \<and> n \<le> 90 then char_of (n + 32) else c)"

definition lower :: "string \<Rightarrow> string" where
  "lower s = map lower_char s"

text \<open>\<open>sep.join(xs)\<close> and \<open>s.split(sep)\<close> for a one-character separator.\<close>

fun join :: "string \<Rightarrow> string list \<Rightarrow> string" where
  "join sep [] = []"
| "join sep [x] = x"
| "join sep (x # y # ys) = x @ sep @ join sep (y # ys)"

fun split_on :: "char \<Rightarrow> string \<Rightarrow> string \<Rightarrow> string list" where
  "split_on d cur [] = [rev cur]"
| "split_on d cur (c # cs) =
     (if c = d then rev cur # split_on d [] cs else split_on d (c # cur) cs)"

section \<open>Errors\<close>

text \<open>
  Every \<open>raise\<close> of the source is a value. The program raises \<open>ValueError\<close> with
  different messages; each message is a constructor here.
\<close>

datatype error =
    InvalidPath
  | HomeDirectoryReference
  | ContentTooLarge
  | SnippetNotFound
  | AmbiguousSnippet nat
  | OSError
  | EmbeddedNullByte
  | UnicodeDecodeError string
  | IndexError
  | NegativeSleep

section \<open>Paths (pathlib on a POSIX file system)\<close>

text \<open>
  A \<open>Path\<close> is a flag for the root and its components. The constructor drops empty
  components and \<open>.\<close>, and keeps \<open>..\<close>. A path that begins with exactly two slashes,
  which POSIX lets an implementation treat apart, is read as one from the root.
\<close>

record path =
  is_absolute :: bool
  components :: "string list"

definition Path :: "string \<Rightarrow> path" where
  "Path s = \<lparr> is_absolute = prefix ''/'' s,
             components = filter (\<lambda>c. c \<noteq> [] \<and> c \<noteq> ''.'') (split_on (CHR ''/'') [] s) \<rparr>"

definition path_str :: "path \<Rightarrow> string" where
  "path_str p =
     (if is_absolute p then ''/'' @ join ''/'' (components p)
      else if components p = [] then ''.''
      else join ''/'' (components p))"

definition parts :: "path \<Rightarrow> string list" where
  "parts p = (if is_absolute p then [''/''] else []) @ components p"

fun resolve_parts :: "string list \<Rightarrow> string list \<Rightarrow> string list" where
  "resolve_parts acc [] = rev acc"
| "resolve_parts acc (p # ps) =
     (if p = ''..'' then resolve_parts (case acc of [] \<Rightarrow> [] | _ # a \<Rightarrow> a) ps
      else resolve_parts (p # acc) ps)"

definition absolute :: "string \<Rightarrow> path \<Rightarrow> path" where
  "absolute cwd p = \<lparr> is_absolute = True, components = components (Path cwd) @ components p \<rparr>"

definition resolve :: "path \<Rightarrow> path" where
  "resolve p = \<lparr> is_absolute = True, components = resolve_parts [] (components p) \<rparr>"

text \<open>
  \<open>Path.resolve()\<close> is answered by the file system: it follows symbolic links as well as
  \<open>.\<close> and \<open>..\<close>, and it can raise. A resolver stands for it: it gives the components
  of the canonical absolute path, or the exception.
\<close>

type_synonym resolver = "path \<Rightarrow> error + string list"

definition absolute_text :: "string list \<Rightarrow> string" where
  "absolute_text comps = ''/'' @ join ''/'' comps"

text \<open>
  \<open>normalize_path\<close>: the working directory \<open>cwd\<close> (what \<open>os.getcwd()\<close> returns) and
  the resolver are parameters. Every exception raised inside, that of the containment
  test included, is caught and raised again as the \<open>ValueError\<close> of an invalid path. The
  containment test is the source's comparison of the two strings.
\<close>

definition normalize_path_with :: "resolver \<Rightarrow> string \<Rightarrow> string \<Rightarrow> error + string" where
  "normalize_path_with os_resolve cwd path_string =
     (let p0 = Path path_string;
          p1 = (if is_absolute p0 then p0 else absolute cwd p0)
      in case os_resolve p1 of
           Inl e \<Rightarrow> Inl InvalidPath
         | Inr p2 \<Rightarrow>
             (case os_resolve (Path cwd) of
                Inl e \<Rightarrow> Inl InvalidPath
              | Inr workspace \<Rightarrow>
                  if \<not> prefix (absolute_text workspace) (absolute_text p2) then Inl InvalidPath
                  else Inr (absolute_text p2)))"

text \<open>
  The resolver of a file system without symbolic links: \<open>..\<close> is removed together with
  the component before it (at the root it is dropped), and a component with a NUL
  character raises \<open>ValueError\<close>. The other functions of the program are modelled on
  such a file system: there \<open>normalize_path\<close> is the following.
\<close>

definition resolve_plain :: resolver where
  "resolve_plain p =
     (if list_ex (\<lambda>c. CHR 0x00 \<in> set c) (components p) then Inl EmbeddedNullByte
      else Inr (resolve_parts [] (components p)))"

definition normalize_path :: "string \<Rightarrow> string \<Rightarrow> error + string" where
  "normalize_path cwd path_string = normalize_path_with resolve_plain cwd path_string"

text \<open>
  Containment of directories, component by component: what "lies within the workspace
  root" means for two canonical paths.
\<close>

definition lies_within :: "string list \<Rightarrow> string list \<Rightarrow> bool" where
  "lies_within ws p = prefix ws p"

section \<open>Messages, the conversation log and the file system\<close>

datatype role = System | User | Assistant

record message =
  role :: role
  content :: string

type_synonym history = "message list"

text \<open>
  The files that are read and written: for every regular file, by its resolved path,
  the text that reading it in text mode returns. These files lie on a file system
  without symbolic links. Reading a path that holds no file raises \<open>OSError\<close>
  (\<open>FileNotFoundError\<close> is one).
\<close>

type_synonym filesystem = "string \<Rightarrow> string option"

definition canonical :: "string \<Rightarrow> string \<Rightarrow> string" where
  "canonical cwd p =
     (let p0 = Path p in path_str (resolve (if is_absolute p0 then p0 else absolute cwd p0)))"

definition read_local_file :: "string \<Rightarrow> filesystem \<Rightarrow> string \<Rightarrow> error + string" where
  "read_local_file cwd fs file_path =
     (case fs (canonical cwd file_path) of None \<Rightarrow> Inl OSError | Some text \<Rightarrow> Inr text)"

definition file_marker :: "string \<Rightarrow> string" where
  "file_marker normalized_path = ''Content of file '' @ quote @ normalized_path @ quote"

definition file_content_message :: "string \<Rightarrow> string \<Rightarrow> message" where
  "file_content_message normalized_path text =
     \<lparr> role = System, content = file_marker normalized_path @ '':'' @ newline @ newline @ text \<rparr>"

definition system_message :: "string \<Rightarrow> message" where
  "system_message text = \<lparr> role = System, content = text \<rparr>"

text \<open>
  The log the program starts with holds the system prompt alone. The prompt's text plays
  no part in what follows; only its first sentence is kept here.
\<close>

definition system_PROMPT :: string where
  "system_PROMPT = ''You are an elite software engineer called DeepSeek Engineer with decades of experience across all programming domains.''"

definition initial_history :: history where
  "initial_history = [system_message system_PROMPT]"

section \<open>Creating and editing files\<close>

datatype outcome = Created | Skipped | Failed error

text \<open>
  \<open>create_file\<close>: \<open>answer\<close> is what the prompt returns when it is asked; every
  exception is caught by the function itself and leaves the state as it is at that point.
  Writing stores the text under the resolved path. Directories are implicit in the file
  system of the model: creating the parent directories and opening the file do not fail.
  The size limit counts the characters of the text, as \<open>len\<close> does.
\<close>

definition create_file ::
  "string \<Rightarrow> string \<Rightarrow> string \<Rightarrow> bool \<Rightarrow> nat list \<Rightarrow> filesystem \<Rightarrow> history
     \<Rightarrow> outcome \<times> filesystem \<times> history" where
  "create_file cwd path_string text require_confirmation answer fs hist =
     (let file_path = Path path_string in
      if list_ex (\<lambda>part. prefix ''~'' part) (parts file_path)
      then (Failed HomeDirectoryReference, fs, hist)
      else
        case normalize_path cwd (path_str file_path) of
          Inl e \<Rightarrow> (Failed e, fs, hist)
        | Inr normalized_path \<Rightarrow>
            if length text > 5000000 then (Failed ContentTooLarge, fs, hist)
            else
              let user_confirm = (if require_confirmation then lower_points (strip answer)
                                  else code_points ''y'') in
              if user_confirm \<noteq> code_points ''y'' \<and> user_confirm \<noteq> [] then (Skipped, fs, hist)
              else
                let fs' = fun_upd fs (canonical cwd (path_str file_path)) (Some text);
                    hist' = hist @ [system_message
                      (''File operation: Created/updated file at '' @ quote @ path_str file_path @ quote)]
                in (case normalize_path cwd (path_str file_path) of
                      Inl e \<Rightarrow> (Failed e, fs', hist')
                    | Inr normalized_path' \<Rightarrow>
                        (Created, fs', hist' @ [file_content_message normalized_path' text])))"

text \<open>
  The substitution of \<open>apply_diff_edit\<close>: the two checks on \<open>content.count\<close> and the
  replacement of the first occurrence.
\<close>

definition apply_snippet :: "string \<Rightarrow> string \<Rightarrow> string \<Rightarrow> error + string" where
  "apply_snippet text original_snippet new_snippet =
     (let n = py_count original_snippet text in
      if n = 0 then Inl SnippetNotFound
      else if n > 1 then Inl (AmbiguousSnippet n)
      else Inr (py_replace1 original_snippet new_snippet text))"

datatype edit_outcome = Applied | NotApplied error

definition apply_diff_edit ::
  "string \<Rightarrow> string \<Rightarrow> string \<Rightarrow> string \<Rightarrow> filesystem \<Rightarrow> history
     \<Rightarrow> edit_outcome \<times> filesystem \<times> history" where
  "apply_diff_edit cwd path_string original_snippet new_snippet fs hist =
     (case read_local_file cwd fs path_string of
        Inl e \<Rightarrow> (NotApplied e, fs, hist)
      | Inr text \<Rightarrow>
          (case apply_snippet text original_snippet new_snippet of
             Inl e \<Rightarrow> (NotApplied e, fs, hist)
           | Inr updated_content \<Rightarrow>
               (case create_file cwd path_string updated_content False [] fs hist of
                  (_, fs', hist') \<Rightarrow>
                    (Applied, fs', hist' @ [system_message
                       (''File operation: Applied diff edit to '' @ quote @ path_string @ quote)]))))"

section \<open>Adding files to the conversation\<close>

text \<open>
  \<open>ensure_file_in_context\<close> catches \<open>OSError\<close> only: the \<open>ValueError\<close> of
  \<open>normalize_path\<close> goes to the caller.
\<close>

definition ensure_file_in_context ::
  "string \<Rightarrow> filesystem \<Rightarrow> string \<Rightarrow> history \<Rightarrow> error + (bool \<times> history)" where
  "ensure_file_in_context cwd fs file_path hist =
     (case normalize_path cwd file_path of
        Inl e \<Rightarrow> Inl e
      | Inr normalized_path \<Rightarrow>
          (case read_local_file cwd fs normalized_path of
             Inl e \<Rightarrow> Inr (False, hist)
           | Inr text \<Rightarrow>
               if \<not> list_ex (\<lambda>msg. sublist (file_marker normalized_path) (content msg)) hist
               then Inr (True, hist @ [file_content_message normalized_path text])
               else Inr (True, hist)))"

text \<open>
  The single-file branch of \<open>try_handle_add_command\<close> (the path is not a directory):
  the message is appended whatever the log holds.
\<close>

definition add_file_command ::
  "string \<Rightarrow> filesystem \<Rightarrow> string \<Rightarrow> history \<Rightarrow> error + history" where
  "add_file_command cwd fs path_to_add hist =
     (case normalize_path cwd path_to_add of
        Inl e \<Rightarrow> Inl e
      | Inr normalized_path \<Rightarrow>
          (case read_local_file cwd fs normalized_path of
             Inl e \<Rightarrow> Inr hist
           | Inr text \<Rightarrow> Inr (hist @ [file_content_message normalized_path text])))"

text \<open>The messages of a log that carry the marker of a path, by the program's own test.\<close>

definition marked :: "string \<Rightarrow> history \<Rightarrow> history" where
  "marked normalized_path hist =
     filter (\<lambda>msg. sublist (file_marker normalized_path) (content msg)) hist"

section \<open>Rebuilding and trimming the log\<close>

text \<open>
  The first part of \<open>stream_openai_response\<close>: the loop over \<open>conversation_history[1:]\<close>
  sorts each message into \<open>file_context\<close> or \<open>user_assistant_pairs\<close> (or drops it), then
  the log is replaced. Reading \<open>conversation_history[0]\<close> of an empty log raises.
\<close>

fun classify :: "history \<Rightarrow> history \<Rightarrow> history \<Rightarrow> history \<times> history" where
  "classify [] file_context user_assistant_pairs = (file_context, user_assistant_pairs)"
| "classify (msg # rest) file_context user_assistant_pairs =
     (if role msg = System \<and> sublist (''Content of file '' @ quote) (content msg)
      then classify rest (file_context @ [msg]) user_assistant_pairs
      else if role msg = User \<or> role msg = Assistant
      then classify rest file_context (user_assistant_pairs @ [msg])
      else classify rest file_context user_assistant_pairs)"

definition rebuild_history :: "string \<Rightarrow> history \<Rightarrow> error + history" where
  "rebuild_history user_message hist =
     (case hist of
        [] \<Rightarrow> Inl IndexError
      | first # rest \<Rightarrow>
          (case classify rest [] [] of
             (file_context, user_assistant_pairs) \<Rightarrow>
               let kept = (if length user_assistant_pairs mod 2 \<noteq> 0
                           then butlast user_assistant_pairs else user_assistant_pairs)
               in Inr ([first] @ file_context @ kept
                        @ [\<lparr> role = User, content = user_message \<rparr>])))"

text \<open>
  What the rebuilt log is described to hold: its file-content messages, and its
  conversation as whole exchanges (a user message answered by an assistant message).
\<close>

definition is_file_content :: "message \<Rightarrow> bool" where
  "is_file_content msg = (role msg = System \<and> sublist (''Content of file '' @ quote) (content msg))"

definition is_conversational :: "message \<Rightarrow> bool" where
  "is_conversational msg = (role msg = User \<or> role msg = Assistant)"

fun exchanges :: "history \<Rightarrow> bool" where
  "exchanges [] = True"
| "exchanges [m] = False"
| "exchanges (u # a # rest) = (role u = User \<and> role a = Assistant \<and> exchanges rest)"

fun alternating :: "history \<Rightarrow> bool" where
  "alternating [] = True"
| "alternating [u] = (role u = User)"
| "alternating (u # a # rest) = (role u = User \<and> role a = Assistant \<and> alternating rest)"

text \<open>\<open>trim_conversation_history\<close>; \<open>xs[-n:]\<close> keeps the last \<open>n\<close> elements.\<close>

definition max_pairs :: nat where
  "max_pairs = 10"

definition last_n :: "nat \<Rightarrow> 'a list \<Rightarrow> 'a list" where
  "last_n n xs = drop (length xs - n) xs"

definition trim_conversation_history :: "history \<Rightarrow> history" where
  "trim_conversation_history hist =
     (let system_msgs = filter (\<lambda>msg. role msg = System) hist;
          other_msgs = filter (\<lambda>msg. role msg \<noteq> System) hist;
          other_msgs' = (if length other_msgs > max_pairs * 2
                         then last_n (max_pairs * 2) other_msgs else other_msgs)
      in system_msgs @ other_msgs')"

section \<open>The rate limiter\<close>

text \<open>
  Clock readings are exact numbers. The constructor stores its arguments and has no
  check; its result has an error side so that a rejection could be told from a limiter.
\<close>

record rate_limiter =
  max_calls :: int
  period :: rat
  timestamps :: "rat list"

definition RateLimiter :: "int \<Rightarrow> rat \<Rightarrow> error + rate_limiter" where
  "RateLimiter mc p = Inr \<lparr> max_calls = mc, period = p, timestamps = [] \<rparr>"

fun expire :: "rat \<Rightarrow> rat \<Rightarrow> rat list \<Rightarrow> rat list" where
  "expire now p [] = []"
| "expire now p (t # ts) = (if now - t > p then expire now p ts else t # ts)"

text \<open>
  \<open>__call__\<close>: \<open>now\<close> is the reading of the clock on entry and \<open>woke\<close> the reading after
  \<open>time.sleep\<close>, used only when the call sleeps. \<open>timestamps[0]\<close> of an empty deque raises
  \<open>IndexError\<close> and \<open>time.sleep\<close> of a negative number raises \<open>ValueError\<close>.
\<close>

definition time_to_wait :: "rate_limiter \<Rightarrow> rat \<Rightarrow> rat option" where
  "time_to_wait self now =
     (let ts = expire now (period self) (timestamps self) in
      if int (length ts) \<ge> max_calls self
      then (case ts of [] \<Rightarrow> None | t0 # _ \<Rightarrow> Some (period self - (now - t0)))
      else Some 0)"

definition acquire :: "rate_limiter \<Rightarrow> rat \<Rightarrow> rat \<Rightarrow> error + (rat \<times> rate_limiter)" where
  "acquire self now woke =
     (let ts = expire now (period self) (timestamps self) in
      if int (length ts) \<ge> max_calls self
      then (case ts of
              [] \<Rightarrow> Inl IndexError
            | t0 # _ \<Rightarrow>
                if period self - (now - t0) < 0 then Inl NegativeSleep
                else Inr (woke, self \<lparr> timestamps := ts @ [woke] \<rparr>))
      else Inr (now, self \<lparr> timestamps := ts @ [now] \<rparr>))"

text \<open>
  A run of acquisitions, each with its two clock readings; the admission times are
  collected. A clock is honest for a run when its readings never go back and every sleep
  lasts at least as long as it was asked to.
\<close>

fun acquire_all :: "rate_limiter \<Rightarrow> (rat \<times> rat) list \<Rightarrow> error + (rat list \<times> rate_limiter)" where
  "acquire_all self [] = Inr ([], self)"
| "acquire_all self ((now, woke) # rest) =
     (case acquire self now woke of
        Inl e \<Rightarrow> Inl e
      | Inr (t, self') \<Rightarrow>
          (case acquire_all self' rest of
             Inl e \<Rightarrow> Inl e
           | Inr (ts, self'') \<Rightarrow> Inr (t # ts, self'')))"

fun honest_clock :: "rate_limiter \<Rightarrow> rat \<Rightarrow> (rat \<times> rat) list \<Rightarrow> bool" where
  "honest_clock self prev [] = True"
| "honest_clock self prev ((now, woke) # rest) =
     (prev \<le> now \<and>
      (case acquire self now woke of
         Inl e \<Rightarrow> True
       | Inr (t, self') \<Rightarrow>
           (case time_to_wait self now of
              None \<Rightarrow> True
            | Some w \<Rightarrow> now + w \<le> woke) \<and> honest_clock self' t rest))"

text \<open>The admissions of a run that fall into the closed interval from \<open>a\<close> to \<open>b\<close>.\<close>

definition admitted_in :: "rat \<Rightarrow> rat \<Rightarrow> rat list \<Rightarrow> nat" where
  "admitted_in a b ts = length (filter (\<lambda>t. a \<le> t \<and> t \<le> b) ts)"

section \<open>Ingesting a directory\<close>

text \<open>
  What \<open>os.walk\<close> and the file system calls report about a tree: for every file its
  name, what \<open>os.path.getsize\<close> returns (\<open>None\<close> when it raises \<open>OSError\<close>), what
  \<open>is_binary_file\<close> returns, and what reading it returns.
\<close>

record entry =
  ename :: string
  esize :: "nat option"
  ebinary :: bool
  eread :: "error + string"

datatype dir = Dir (dname: string) (dfiles: "entry list") (dsubdirs: "dir list")

definition excluded_files :: "string list" where
  "excluded_files =
     [''.DS_Store'', ''Thumbs.db'', ''.gitignore'', ''.python-version'',
      ''uv.lock'', ''.uv'', ''uvenv'', ''.uvenv'', ''.venv'', ''venv'',
      ''__pycache__'', ''.pytest_cache'', ''.coverage'', ''.mypy_cache'',
      ''node_modules'', ''package-lock.json'', ''yarn.lock'', ''pnpm-lock.yaml'',
      ''.next'', ''.nuxt'', ''dist'', ''build'', ''.cache'', ''.parcel-cache'',
      ''.turbo'', ''.vercel'', ''.output'', ''.contentlayer'',
      ''out'', ''coverage'', ''.nyc_output'', ''storybook-static'',
      ''.env'', ''.env.local'', ''.env.development'', ''.env.production'',
      ''.git'', ''.svn'', ''.hg'', ''CVS'']"

definition excluded_extensions :: "string list" where
  "excluded_extensions =
     [''.png'', ''.jpg'', ''.jpeg'', ''.gif'', ''.ico'', ''.svg'', ''.webp'', ''.avif'',
      ''.mp4'', ''.webm'', ''.mov'', ''.mp3'', ''.wav'', ''.ogg'',
      ''.zip'', ''.tar'', ''.gz'', ''.7z'', ''.rar'',
      ''.exe'', ''.dll'', ''.so'', ''.dylib'', ''.bin'',
      ''.pdf'', ''.doc'', ''.docx'', ''.xls'', ''.xlsx'', ''.ppt'', ''.pptx'',
      ''.pyc'', ''.pyo'', ''.pyd'', ''.egg'', ''.whl'',
      ''.uv'', ''.uvenv'',
      ''.db'', ''.sqlite'', ''.sqlite3'', ''.log'',
      ''.idea'', ''.vscode'',
      ''.map'', ''.chunk.js'', ''.chunk.css'',
      ''.min.js'', ''.min.css'', ''.bundle.js'', ''.bundle.css'',
      ''.cache'', ''.tmp'', ''.temp'',
      ''.ttf'', ''.otf'', ''.woff'', ''.woff2'', ''.eot'']"

definition max_files :: nat where
  "max_files = 1000"

definition max_file_size :: nat where
  "max_file_size = 5000000"

definition MAX_TOTAL_SIZE :: nat where
  "MAX_TOTAL_SIZE = 50000000"

text \<open>
  \<open>os.path.join\<close> of a directory and a name, and the extension of \<open>os.path.splitext\<close>:
  the part from the last dot on, if a character other than a dot stands before it.
\<close>

definition path_join :: "string \<Rightarrow> string \<Rightarrow> string" where
  "path_join root_dir name =
     (if root_dir = [] \<or> suffix ''/'' root_dir then root_dir @ name else root_dir @ ''/'' @ name)"

definition splitext_ext :: "string \<Rightarrow> string" where
  "splitext_ext name =
     (let tail = takeWhile (\<lambda>c. c \<noteq> CHR ''.'') (rev name) in
      if length tail < length name
         \<and> list_ex (\<lambda>c. c \<noteq> CHR ''.'') (take (length name - length tail - 1) name)
      then CHR ''.'' # rev tail
      else [])"

text \<open>The variables of the scan, and the log, which receives the file contents.\<close>

record scan =
  skipped_files :: "string list"
  added_files :: "string list"
  total_files_processed :: nat
  total_size :: nat
  added_sizes :: "nat list"
  log :: history

definition limit_reached :: "scan \<Rightarrow> bool" where
  "limit_reached st = (total_files_processed st \<ge> max_files \<or> total_size st \<ge> MAX_TOTAL_SIZE)"

definition skip :: "string \<Rightarrow> scan \<Rightarrow> scan" where
  "skip label st = st \<lparr> skipped_files := skipped_files st @ [label] \<rparr>"

definition invalid_path_text :: "string \<Rightarrow> string" where
  "invalid_path_text p =
     ''Invalid path: '' @ p @ '' - Invalid path: '' @ p @ '' is outside workspace directory''"

text \<open>
  The body of the inner loop for one file. \<open>added_sizes\<close> is not a variable of the
  source: it records the size added to \<open>total_size\<close> for each member of \<open>added_files\<close>.
\<close>

definition scan_file :: "string \<Rightarrow> string \<Rightarrow> entry \<Rightarrow> scan \<Rightarrow> scan" where
  "scan_file cwd root_dir file st =
     (let full_path = path_join root_dir (ename file) in
      if prefix ''.'' (ename file) \<or> ename file \<in> set excluded_files then skip full_path st
      else if lower (splitext_ext (ename file)) \<in> set excluded_extensions then skip full_path st
      else
        case esize file of
          None \<Rightarrow> skip full_path st
        | Some file_size \<Rightarrow>
            if file_size > max_file_size then skip (full_path @ '' (exceeds size limit)'') st
            else if total_size st + file_size > MAX_TOTAL_SIZE
            then skip (full_path @ '' (would exceed total size limit)'') st
            else if ebinary file then skip full_path st
            else
              (case normalize_path cwd full_path of
                 Inl e \<Rightarrow> skip (full_path @ '' ('' @ invalid_path_text full_path @ '')'') st
               | Inr normalized_path \<Rightarrow>
                   (case eread file of
                      Inl (UnicodeDecodeError text) \<Rightarrow> skip (full_path @ '' ('' @ text @ '')'') st
                    | Inl e \<Rightarrow> skip full_path st
                    | Inr text \<Rightarrow>
                        st \<lparr> log := log st @ [file_content_message normalized_path text],
                             added_files := added_files st @ [normalized_path],
                             total_files_processed := total_files_processed st + 1,
                             total_size := total_size st + file_size,
                             added_sizes := added_sizes st @ [file_size] \<rparr>)))"

text \<open>The inner loop: it breaks at the first file that finds a limit reached.\<close>

fun scan_files :: "string \<Rightarrow> string \<Rightarrow> entry list \<Rightarrow> scan \<Rightarrow> scan" where
  "scan_files cwd root_dir [] st = st"
| "scan_files cwd root_dir (file # files) st =
     (if limit_reached st then st
      else scan_files cwd root_dir files (scan_file cwd root_dir file st))"

text \<open>
  The outer loop over \<open>os.walk\<close>, top down: a directory is visited, then its
  subdirectories in order, without the hidden and the excluded ones. The \<open>break\<close> of the
  outer loop ends the walk; here every directory after it finds the limit reached as well
  (no step lowers a counter) and returns the state as it is.
\<close>

fun walk :: "string \<Rightarrow> string \<Rightarrow> dir \<Rightarrow> scan \<Rightarrow> scan"
  and walk_subdirs :: "string \<Rightarrow> string \<Rightarrow> dir list \<Rightarrow> scan \<Rightarrow> scan" where
  "walk cwd root_dir (Dir name files subdirs) st =
     (if limit_reached st then st
      else walk_subdirs cwd root_dir subdirs (scan_files cwd root_dir files st))"
| "walk_subdirs cwd root_dir [] st = st"
| "walk_subdirs cwd root_dir (d # ds) st =
     (if prefix ''.'' (dname d) \<or> dname d \<in> set excluded_files
      then walk_subdirs cwd root_dir ds st
      else walk_subdirs cwd root_dir ds (walk cwd (path_join root_dir (dname d)) d st))"

definition empty_scan :: "history \<Rightarrow> scan" where
  "empty_scan hist =
     \<lparr> skipped_files = [], added_files = [], total_files_processed = 0, total_size = 0,
       added_sizes = [], log = hist \<rparr>"

definition add_directory_to_conversation :: "string \<Rightarrow> string \<Rightarrow> dir \<Rightarrow> history \<Rightarrow> scan" where
  "add_directory_to_conversation cwd directory_path tree hist =
     walk cwd directory_path tree (empty_scan hist)"

section \<open>Notions used by the properties\<close>

text \<open>The absolute path that \<open>normalize_path\<close> hands to the resolver.\<close>

definition located :: "string \<Rightarrow> string \<Rightarrow> path" where
  "located cwd s = (let p0 = Path s in if is_absolute p0 then p0 else absolute cwd p0)"

text \<open>
  The question of \<open>main\<close> before the edits of a reply are applied: they are applied
  only when the answer, stripped and in lower case, is \<open>y\<close>.
\<close>

definition edits_confirmed :: "nat list \<Rightarrow> bool" where
  "edits_confirmed answer = (lower_points (strip answer) = code_points ''y'')"

text \<open>
  The logs the program can hold. Every function other than \<open>stream_openai_response\<close>
  appends system messages only. A request rebuilds the log (which ends with the new user
  message), may append file contents as system messages, and, when the reply arrives,
  appends it as the assistant's message; when the request fails the log stays without it.
\<close>

inductive reachable :: "history \<Rightarrow> bool" where
  start: "reachable initial_history"
| system_appended: "reachable h \<Longrightarrow> reachable (h @ [system_message s])"
| request_failed: "reachable h \<Longrightarrow> rebuild_history m h = Inr h' \<Longrightarrow> reachable h'"
| request_answered:
    "reachable h \<Longrightarrow> rebuild_history m h = Inr h' \<Longrightarrow>
     reachable (h' @ map system_message files @ [\<lparr> role = Assistant, content = reply \<rparr>])"

text \<open>
  The counters of a scan respect the two limits and agree with the files added: one size
  per added file, and \<open>total_size\<close> is their sum.
\<close>

definition within_limits :: "scan \<Rightarrow> bool" where
  "within_limits st =
     (total_size st \<le> MAX_TOTAL_SIZE \<and> total_files_processed st \<le> max_files
      \<and> length (added_files st) = total_files_processed st
      \<and> length (added_sizes st) = total_files_processed st
      \<and> sum_list (added_sizes st) = total_size st)"

section \<open>Properties of the snippet patcher\<close>

lemma py_count_zero_iff: "py_count sub s = 0 \<longleftrightarrow> \<not> sublist sub s"
proof (induction sub s rule: py_count.induct)
  case (1 sub s)
  show ?case
  proof (cases "sub = []")
    case True
    then show ?thesis by (simp add: py_count.simps)
  next
    case False
    note ne = this
    show ?thesis
    proof (cases s)
      case Nil
      with ne show ?thesis by (simp add: py_count.simps)
    next
      case (Cons c cs)
      show ?thesis
      proof (cases "prefix sub s")
        case True
        then have "sublist sub s" by (rule prefix_imp_sublist)
        moreover have "py_count sub s \<noteq> 0"
          using ne Cons True by (subst py_count.simps) simp
        ultimately show ?thesis by simp
      next
        case False
        have "py_count sub s = py_count sub cs"
          using ne Cons False by (subst py_count.simps) simp
        moreover have "py_count sub cs = 0 \<longleftrightarrow> \<not> sublist sub cs"
          using "1.IH"(2) ne Cons False by simp
        moreover have "sublist sub s \<longleftrightarrow> sublist sub cs"
          using False Cons by (simp add: sublist_Cons_right)
        ultimately show ?thesis by simp
      qed
    qed
  qed
qed

lemma py_count_unique:
  assumes "\<And>pre' post'. pre @ sub @ post = pre' @ sub @ post' \<Longrightarrow> pre' = pre"
  shows "py_count sub (pre @ sub @ post) = 1"
  using assms
proof (induction pre)
  case Nil
  show ?case
  proof (cases "sub = []")
    case True
    have "post = []"
    proof (rule ccontr)
      assume "post \<noteq> []"
      then have "[] @ sub @ post = post @ sub @ []" using True by simp
      from Nil[OF this] \<open>post \<noteq> []\<close> show False by simp
    qed
    with True show ?thesis by (simp add: py_count.simps)
  next
    case False
    have "\<not> sublist sub post"
    proof
      assume "sublist sub post"
      then obtain p q where "post = p @ sub @ q" by (auto simp: sublist_def)
      then have "[] @ sub @ post = (sub @ p) @ sub @ q" by simp
      from Nil[OF this] False show False by simp
    qed
    then have "py_count sub post = 0" by (simp add: py_count_zero_iff)
    then show ?thesis using False by (subst py_count.simps) simp
  qed
next
  case (Cons c pre)
  have ne: "sub \<noteq> []"
  proof
    assume "sub = []"
    then have "(c # pre) @ sub @ post = [] @ sub @ ((c # pre) @ post)" by simp
    from Cons.prems[OF this] show False by simp
  qed
  have np: "\<not> prefix sub ((c # pre) @ sub @ post)"
  proof
    assume "prefix sub ((c # pre) @ sub @ post)"
    then obtain r where "(c # pre) @ sub @ post = [] @ sub @ r" by (auto simp: prefix_def)
    from Cons.prems[OF this] show False by simp
  qed
  have "py_count sub (pre @ sub @ post) = 1"
  proof (rule Cons.IH)
    fix pre' post' assume "pre @ sub @ post = pre' @ sub @ post'"
    then have "(c # pre) @ sub @ post = (c # pre') @ sub @ post'" by simp
    from Cons.prems[OF this] show "pre' = pre" by simp
  qed
  then show ?case using ne np by (subst py_count.simps) simp
qed

lemma py_replace1_prefix:
  "prefix old s \<Longrightarrow> py_replace1 old new s = new @ drop (length old) s"
  by (cases s) auto

lemma py_replace1_first:
  assumes "\<And>pre' post'. pre @ old @ post = pre' @ old @ post' \<Longrightarrow> length pre \<le> length pre'"
  shows "py_replace1 old new (pre @ old @ post) = pre @ new @ post"
  using assms
proof (induction pre)
  case Nil
  show ?case by (simp add: py_replace1_prefix)
next
  case (Cons c pre)
  have np: "\<not> prefix old ((c # pre) @ old @ post)"
  proof
    assume "prefix old ((c # pre) @ old @ post)"
    then obtain r where "(c # pre) @ old @ post = [] @ old @ r" by (auto simp: prefix_def)
    from Cons.prems[OF this] show False by simp
  qed
  have "py_replace1 old new (pre @ old @ post) = pre @ new @ post"
  proof (rule Cons.IH)
    fix pre' post' assume "pre @ old @ post = pre' @ old @ post'"
    then have "(c # pre) @ old @ post = (c # pre') @ old @ post'" by simp
    from Cons.prems[OF this] show "length pre \<le> length pre'" by simp
  qed
  then show ?case using np by simp
qed

lemma occurrences_card:
  "occurrences sub s = card {i. i \<le> length s \<and> prefix sub (drop i s)}"
proof -
  have "occurrences sub s = card ({i. prefix sub (drop i s)} \<inter> set [0..<Suc (length s)])"
    unfolding occurrences_def by (rule distinct_length_filter) simp
  also have "{i. prefix sub (drop i s)} \<inter> set [0..<Suc (length s)]
             = {i. i \<le> length s \<and> prefix sub (drop i s)}"
    by auto
  finally show ?thesis .
qed

lemma occurs_at_iff:
  "(i \<le> length s \<and> prefix sub (drop i s)) \<longleftrightarrow> (\<exists>pre post. s = pre @ sub @ post \<and> length pre = i)"
proof
  assume a: "i \<le> length s \<and> prefix sub (drop i s)"
  then obtain post where "drop i s = sub @ post" by (auto simp: prefix_def)
  then have "s = take i s @ sub @ post" by (metis append_take_drop_id)
  moreover have "length (take i s) = i" using a by simp
  ultimately show "\<exists>pre post. s = pre @ sub @ post \<and> length pre = i" by blast
next
  assume "\<exists>pre post. s = pre @ sub @ post \<and> length pre = i"
  then obtain pre post where "s = pre @ sub @ post" "length pre = i" by blast
  then show "i \<le> length s \<and> prefix sub (drop i s)" by auto
qed

lemma occurrences_one:
  assumes "occurrences sub s = 1"
  shows "\<exists>pre post. s = pre @ sub @ post \<and> (\<forall>pre' post'. s = pre' @ sub @ post' \<longrightarrow> pre' = pre)"
proof -
  from assms obtain i where i: "{i. i \<le> length s \<and> prefix sub (drop i s)} = {i}"
    by (auto simp: occurrences_card card_1_singleton_iff)
  then have "i \<le> length s \<and> prefix sub (drop i s)" by blast
  then obtain pre post where s: "s = pre @ sub @ post" and l: "length pre = i"
    using occurs_at_iff by blast
  have "pre' = pre" if "s = pre' @ sub @ post'" for pre' post'
  proof -
    have "length pre' \<le> length s \<and> prefix sub (drop (length pre') s)"
      using that occurs_at_iff by blast
    with i have "length pre' = i" by blast
    with l s that show ?thesis by (metis append_eq_append_conv)
  qed
  with s show ?thesis by blast
qed

lemma occurrences_zero_iff: "occurrences sub s = 0 \<longleftrightarrow> \<not> sublist sub s"
proof -
  have fin: "finite {i. i \<le> length s \<and> prefix sub (drop i s)}" by simp
  have "occurrences sub s = 0 \<longleftrightarrow> {i. i \<le> length s \<and> prefix sub (drop i s)} = {}"
    using fin by (simp add: occurrences_card)
  also have "\<dots> \<longleftrightarrow> \<not> (\<exists>pre post. s = pre @ sub @ post)"
    using occurs_at_iff[of _ s sub] by blast
  also have "\<dots> \<longleftrightarrow> \<not> sublist sub s" by (simp add: sublist_def)
  finally show ?thesis .
qed

lemma apply_snippet_unique:
  assumes "\<And>pre' post'. pre @ S @ post = pre' @ S @ post' \<Longrightarrow> pre' = pre"
  shows "apply_snippet (pre @ S @ post) S T = Inr (pre @ T @ post)"
proof -
  have "py_count S (pre @ S @ post) = 1" using assms by (rule py_count_unique)
  moreover have "py_replace1 S T (pre @ S @ post) = pre @ T @ post"
  proof (rule py_replace1_first)
    fix pre' post' assume "pre @ S @ post = pre' @ S @ post'"
    from assms[OF this] show "length pre \<le> length pre'" by simp
  qed
  ultimately show ?thesis by (simp add: apply_snippet_def)
qed

text \<open>
  Claim C3, as the program has it. When the snippet \<open>S\<close> occurs exactly once in the
  content \<open>C\<close>, the substitution returns \<open>C\<close> with that occurrence replaced by \<open>T\<close> and
  everything before and after it unchanged. The inverse edit restores \<open>C\<close> when \<open>T\<close>
  occurs exactly once in the edited content.
\<close>

theorem apply_replaces_single_occurrence:
  assumes "occurrences S C = 1"
  shows "\<exists>pre post. C = pre @ S @ post
           \<and> apply_snippet C S T = Inr (pre @ T @ post)
           \<and> (occurrences T (pre @ T @ post) = 1
                \<longrightarrow> apply_snippet (pre @ T @ post) T S = Inr C)"
proof -
  from occurrences_one[OF assms] obtain pre post where
    C: "C = pre @ S @ post" and u: "\<And>pre' post'. C = pre' @ S @ post' \<Longrightarrow> pre' = pre"
    by blast
  have "\<And>pre' post'. pre @ S @ post = pre' @ S @ post' \<Longrightarrow> pre' = pre"
    using u C by blast
  then have "apply_snippet (pre @ S @ post) S T = Inr (pre @ T @ post)"
    by (rule apply_snippet_unique)
  then have fwd: "apply_snippet C S T = Inr (pre @ T @ post)"
    by (simp add: C)
  have inv: "apply_snippet (pre @ T @ post) T S = Inr C"
    if "occurrences T (pre @ T @ post) = 1"
  proof -
    from occurrences_one[OF that] obtain p q where
      e: "pre @ T @ post = p @ T @ q"
      and v: "\<And>pre' post'. pre @ T @ post = pre' @ T @ post' \<Longrightarrow> pre' = p"
      by blast
    have "pre = p" using v by blast
    then have "\<And>pre' post'. pre @ T @ post = pre' @ T @ post' \<Longrightarrow> pre' = pre"
      using v by blast
    then have "apply_snippet (pre @ T @ post) T S = Inr (pre @ S @ post)"
      by (rule apply_snippet_unique)
    then show ?thesis by (simp add: C)
  qed
  from C fwd inv show ?thesis by blast
qed

theorem apply_replaces_single_occurrence_witness:
  "occurrences ''b'' ''abc'' = 1
   \<and> (\<exists>pre post. ''abc'' = pre @ ''b'' @ post
           \<and> apply_snippet ''abc'' ''b'' ''xy'' = Inr (pre @ ''xy'' @ post)
           \<and> occurrences ''xy'' (pre @ ''xy'' @ post) = 1
           \<and> apply_snippet (pre @ ''xy'' @ post) ''xy'' ''b'' = Inr ''abc'')"
proof -
  have o: "occurrences ''b'' ''abc'' = 1" by (simp add: occurrences_def upt_rec)
  from apply_replaces_single_occurrence[OF o, of "''xy''"] obtain pre post where
    a: "''abc'' = pre @ ''b'' @ post"
    and b: "apply_snippet ''abc'' ''b'' ''xy'' = Inr (pre @ ''xy'' @ post)"
    and c: "occurrences ''xy'' (pre @ ''xy'' @ post) = 1
                \<longrightarrow> apply_snippet (pre @ ''xy'' @ post) ''xy'' ''b'' = Inr ''abc''"
    by blast
  have "apply_snippet ''abc'' ''b'' ''xy'' = Inr ''axyc''"
    by (simp add: apply_snippet_def py_count.simps)
  with b have r: "pre @ ''xy'' @ post = ''axyc''" by simp
  have o2: "occurrences ''xy'' (pre @ ''xy'' @ post) = 1"
    unfolding r by (simp add: occurrences_def upt_rec)
  with c have d: "apply_snippet (pre @ ''xy'' @ post) ''xy'' ''b'' = Inr ''abc''" by blast
  from a b o2 d have "\<exists>pre post. ''abc'' = pre @ ''b'' @ post
           \<and> apply_snippet ''abc'' ''b'' ''xy'' = Inr (pre @ ''xy'' @ post)
           \<and> occurrences ''xy'' (pre @ ''xy'' @ post) = 1
           \<and> apply_snippet (pre @ ''xy'' @ post) ''xy'' ''b'' = Inr ''abc''"
    by blast
  with o show ?thesis by blast
qed

text \<open>
  The inverse edit is not always possible: replacing \<open>a\<close> by \<open>b\<close> in \<open>ab\<close> gives \<open>bb\<close>,
  where the snippet \<open>b\<close> is ambiguous, and the edit back is refused.
\<close>

theorem inverse_edit_counterexample:
  "occurrences ''a'' ''ab'' = 1
   \<and> apply_snippet ''ab'' ''a'' ''b'' = Inr ''bb''
   \<and> apply_snippet ''bb'' ''b'' ''a'' = Inl (AmbiguousSnippet 2)"
  by (simp add: occurrences_def upt_rec apply_snippet_def py_count.simps)

lemma apply_snippet_not_found_iff:
  "apply_snippet C S T = Inl SnippetNotFound \<longleftrightarrow> occurrences S C = 0"
  by (auto simp: apply_snippet_def Let_def occurrences_zero_iff py_count_zero_iff)

lemma apply_diff_edit_failure_unchanged:
  "apply_diff_edit cwd p S T fs hist = (NotApplied e, fs', hist') \<Longrightarrow> fs' = fs \<and> hist' = hist"
  by (auto simp: apply_diff_edit_def split: sum.splits prod.splits)

text \<open>
  Claim C4 at the content \<open>aaa\<close> and the snippet \<open>aa\<close>: the snippet occurs twice (at the
  offsets 0 and 1), \<open>str.count\<close> reports one occurrence, so the edit is not refused as
  ambiguous: the occurrence at offset 0 is replaced and the file is rewritten.
\<close>

theorem overlapping_occurrences_not_refused:
  "occurrences ''aa'' ''aaa'' = 2
   \<and> apply_snippet ''aaa'' ''aa'' ''b'' = Inr ''ba''
   \<and> fst (apply_diff_edit ''/ws'' ''/ws/f.txt'' ''aa'' ''b'' (Map.empty(''/ws/f.txt'' \<mapsto> ''aaa'')) []) = Applied
   \<and> fst (snd (apply_diff_edit ''/ws'' ''/ws/f.txt'' ''aa'' ''b'' (Map.empty(''/ws/f.txt'' \<mapsto> ''aaa'')) [])) ''/ws/f.txt'' = Some ''ba''"
  by (simp add: occurrences_def upt_rec apply_snippet_def py_count.simps apply_diff_edit_def
      read_local_file_def canonical_def Path_def resolve_def path_str_def create_file_def
      normalize_path_def normalize_path_with_def resolve_plain_def absolute_text_def parts_def)

section \<open>Properties of the path check\<close>

lemma join_prefix: "prefix w c \<Longrightarrow> prefix (join ''/'' w) (join ''/'' c)"
proof (induction w arbitrary: c)
  case Nil
  then show ?case by simp
next
  case (Cons x w)
  from Cons.prems obtain c' where c: "c = x # c'" and p: "prefix w c'" by (cases c) auto
  show ?case
  proof (cases w)
    case Nil
    then show ?thesis using c by (cases c') auto
  next
    case (Cons y w')
    with p obtain c'' where "c' = y # c''" by (cases c') auto
    with Cons.IH[OF p] c Cons show ?thesis by auto
  qed
qed

lemma lies_within_text:
  "lies_within ws q \<Longrightarrow> prefix (absolute_text ws) (absolute_text q)"
  by (simp add: lies_within_def absolute_text_def join_prefix)

lemma normalize_path_with_resolved:
  assumes "os_resolve (located cwd s) = Inr q" and "os_resolve (Path cwd) = Inr ws"
  shows "normalize_path_with os_resolve cwd s =
     (if prefix (absolute_text ws) (absolute_text q) then Inr (absolute_text q)
      else Inl InvalidPath)"
  using assms by (simp add: normalize_path_with_def located_def Let_def)

lemma normalize_path_with_raised:
  assumes "os_resolve (located cwd s) = Inl e \<or> os_resolve (Path cwd) = Inl e"
  shows "normalize_path_with os_resolve cwd s = Inl InvalidPath"
proof -
  have "normalize_path_with os_resolve cwd s =
     (case os_resolve (located cwd s) of
        Inl e \<Rightarrow> Inl InvalidPath
      | Inr p2 \<Rightarrow>
          (case os_resolve (Path cwd) of
             Inl e \<Rightarrow> Inl InvalidPath
           | Inr workspace \<Rightarrow>
               if \<not> prefix (absolute_text workspace) (absolute_text p2) then Inl InvalidPath
               else Inr (absolute_text p2)))"
    by (simp add: normalize_path_with_def located_def Let_def)
  then show ?thesis using assms by (auto split: sum.splits)
qed

text \<open>
  Claim C1, as the program has it, for every file system (every resolver).
  \<open>normalize_path\<close> fails with \<open>InvalidPath\<close> when resolving the path or the working
  directory raises, and when, after \<open>.\<close>, \<open>..\<close> and symbolic links are resolved, the
  text of the canonical path does not begin with the text of the workspace root. It
  returns the canonical path when that lies within the workspace root. It does not look
  for home-directory references: \<open>create_file\<close> rejects a path with a component that
  starts with \<open>~\<close> itself, before resolving it, and changes nothing.
\<close>

theorem normalize_path_checks:
  "(os_resolve (located cwd s) = Inl e \<or> os_resolve (Path cwd) = Inl e
      \<longrightarrow> normalize_path_with os_resolve cwd s = Inl InvalidPath)
   \<and> (os_resolve (located cwd s) = Inr q \<and> os_resolve (Path cwd) = Inr ws
        \<and> \<not> prefix (absolute_text ws) (absolute_text q)
      \<longrightarrow> normalize_path_with os_resolve cwd s = Inl InvalidPath)
   \<and> (os_resolve (located cwd s) = Inr q \<and> os_resolve (Path cwd) = Inr ws \<and> lies_within ws q
      \<longrightarrow> normalize_path_with os_resolve cwd s = Inr (absolute_text q))
   \<and> (list_ex (prefix ''~'') (parts (Path s))
      \<longrightarrow> create_file cwd s text confirm answer fs hist = (Failed HomeDirectoryReference, fs, hist))"
proof -
  have a: "os_resolve (located cwd s) = Inl e \<or> os_resolve (Path cwd) = Inl e
      \<longrightarrow> normalize_path_with os_resolve cwd s = Inl InvalidPath"
    using normalize_path_with_raised[of os_resolve cwd s e] by blast
  have b: "os_resolve (located cwd s) = Inr q \<and> os_resolve (Path cwd) = Inr ws
        \<and> \<not> prefix (absolute_text ws) (absolute_text q)
      \<longrightarrow> normalize_path_with os_resolve cwd s = Inl InvalidPath"
    using normalize_path_with_resolved[of os_resolve cwd s q ws] by simp
  have c: "os_resolve (located cwd s) = Inr q \<and> os_resolve (Path cwd) = Inr ws \<and> lies_within ws q
      \<longrightarrow> normalize_path_with os_resolve cwd s = Inr (absolute_text q)"
    using normalize_path_with_resolved[of os_resolve cwd s q ws] lies_within_text[of ws q] by simp
  have d: "list_ex (prefix ''~'') (parts (Path s))
      \<longrightarrow> create_file cwd s text confirm answer fs hist = (Failed HomeDirectoryReference, fs, hist)"
    by (simp add: create_file_def)
  from a b c d show ?thesis by blast
qed

text \<open>
  The theorem at \<open>/home/u/proj\<close>: a path with a NUL character (resolving raises), the
  path \<open>/etc/passwd\<close>, a symbolic link \<open>link\<close> in the workspace that leads to \<open>/etc\<close>,
  a path inside the workspace, and a home-directory reference given to \<open>create_file\<close>.
\<close>

theorem normalize_path_checks_witness:
  "resolve_plain (located ''/home/u/proj'' [CHR ''a'', CHR 0x00, CHR ''b'']) = Inl EmbeddedNullByte
   \<and> normalize_path_with resolve_plain ''/home/u/proj'' [CHR ''a'', CHR 0x00, CHR ''b'']
       = Inl InvalidPath
   \<and> \<not> prefix (absolute_text [''home'', ''u'', ''proj'']) (absolute_text [''etc'', ''passwd''])
   \<and> normalize_path_with resolve_plain ''/home/u/proj'' ''/etc/passwd'' = Inl InvalidPath
   \<and> normalize_path_with
        (\<lambda>p. if components p = [''home'', ''u'', ''proj'', ''link'', ''passwd'']
             then Inr [''etc'', ''passwd''] else resolve_plain p)
        ''/home/u/proj'' ''link/passwd'' = Inl InvalidPath
   \<and> lies_within [''home'', ''u'', ''proj''] [''home'', ''u'', ''proj'', ''a.txt'']
   \<and> normalize_path_with resolve_plain ''/home/u/proj'' ''src/../a.txt'' = Inr ''/home/u/proj/a.txt''
   \<and> list_ex (prefix ''~'') (parts (Path ''~/notes.txt''))
   \<and> create_file ''/home/u/proj'' ''~/notes.txt'' ''x'' False [] Map.empty []
        = (Failed HomeDirectoryReference, Map.empty, [])"
proof -
  let ?links = "\<lambda>p. if components p = [''home'', ''u'', ''proj'', ''link'', ''passwd'']
             then Inr [''etc'', ''passwd''] else resolve_plain p"
  have w: "resolve_plain (Path ''/home/u/proj'') = Inr [''home'', ''u'', ''proj'']"
    by (simp add: resolve_plain_def Path_def)
  have w': "?links (Path ''/home/u/proj'') = Inr [''home'', ''u'', ''proj'']"
    by (simp add: resolve_plain_def Path_def)
  have n: "resolve_plain (located ''/home/u/proj'' [CHR ''a'', CHR 0x00, CHR ''b'']) = Inl EmbeddedNullByte"
    by (simp add: resolve_plain_def located_def Path_def absolute_def)
  have e: "resolve_plain (located ''/home/u/proj'' ''/etc/passwd'') = Inr [''etc'', ''passwd'']"
    by (simp add: resolve_plain_def located_def Path_def absolute_def)
  have l: "?links (located ''/home/u/proj'' ''link/passwd'') = Inr [''etc'', ''passwd'']"
    by (simp add: located_def Path_def absolute_def)
  have i: "resolve_plain (located ''/home/u/proj'' ''src/../a.txt'') = Inr [''home'', ''u'', ''proj'', ''a.txt'']"
    by (simp add: resolve_plain_def located_def Path_def absolute_def)
  have o: "\<not> prefix (absolute_text [''home'', ''u'', ''proj'']) (absolute_text [''etc'', ''passwd''])"
    by (simp add: absolute_text_def)
  have k: "lies_within [''home'', ''u'', ''proj''] [''home'', ''u'', ''proj'', ''a.txt'']"
    by (simp add: lies_within_def)
  have t: "list_ex (prefix ''~'') (parts (Path ''~/notes.txt''))"
    by (simp add: Path_def parts_def)
  have r1: "normalize_path_with resolve_plain ''/home/u/proj'' [CHR ''a'', CHR 0x00, CHR ''b''] = Inl InvalidPath"
    using normalize_path_checks[of resolve_plain "''/home/u/proj''" "[CHR ''a'', CHR 0x00, CHR ''b'']" EmbeddedNullByte] n
    by blast
  have r2: "normalize_path_with resolve_plain ''/home/u/proj'' ''/etc/passwd'' = Inl InvalidPath"
    using normalize_path_checks[of resolve_plain "''/home/u/proj''" "''/etc/passwd''" _ "[''etc'', ''passwd'']"
        "[''home'', ''u'', ''proj'']"] e w o
    by blast
  have r3: "normalize_path_with ?links ''/home/u/proj'' ''link/passwd'' = Inl InvalidPath"
    using normalize_path_checks[of ?links "''/home/u/proj''" "''link/passwd''" _ "[''etc'', ''passwd'']"
        "[''home'', ''u'', ''proj'']"] l w' o
    by blast
  have r4: "normalize_path_with resolve_plain ''/home/u/proj'' ''src/../a.txt''
      = Inr (absolute_text [''home'', ''u'', ''proj'', ''a.txt''])"
    using normalize_path_checks[of resolve_plain "''/home/u/proj''" "''src/../a.txt''" _
        "[''home'', ''u'', ''proj'', ''a.txt'']" "[''home'', ''u'', ''proj'']"] i w k
    by blast
  have r5: "create_file ''/home/u/proj'' ''~/notes.txt'' ''x'' False [] Map.empty []
        = (Failed HomeDirectoryReference, Map.empty, [])"
    using normalize_path_checks[of _ "''/home/u/proj''" "''~/notes.txt''" _ _ _ "''x''" False "[]" Map.empty "[]"] t
    by blast
  have r6: "absolute_text [''home'', ''u'', ''proj'', ''a.txt''] = ''/home/u/proj/a.txt''"
    by (simp add: absolute_text_def)
  from n r1 o r2 r3 k r4 t r5 show ?thesis unfolding r6 by blast
qed

text \<open>
  A path with a home-directory reference is not rejected by \<open>normalize_path\<close>: \<open>~\<close> is
  the name of a directory under the working directory.
\<close>

theorem home_reference_counterexample:
  "list_ex (prefix ''~'') (parts (Path ''~/notes.txt''))
   \<and> normalize_path_with resolve_plain ''/home/u/proj'' ''~/notes.txt''
       = Inr ''/home/u/proj/~/notes.txt''"
  by (simp add: normalize_path_with_def resolve_plain_def absolute_text_def Path_def
      absolute_def parts_def)

text \<open>
  The comparison of the two texts also accepts a directory beside the workspace root
  whose name begins with the name of the root.
\<close>

lemma sibling_with_longer_name_accepted:
  "\<not> lies_within [''home'', ''u'', ''proj''] [''home'', ''u'', ''proj-old'', ''x'']
   \<and> resolve_plain (located ''/home/u/proj'' ''/home/u/proj-old/x'')
       = Inr [''home'', ''u'', ''proj-old'', ''x'']
   \<and> normalize_path_with resolve_plain ''/home/u/proj'' ''/home/u/proj-old/x''
       = Inr ''/home/u/proj-old/x''"
  by (simp add: lies_within_def located_def normalize_path_with_def resolve_plain_def
      absolute_text_def Path_def absolute_def)

section \<open>Properties of the file contents in the log\<close>

lemma marker_in_message:
  "sublist (file_marker p) (content (file_content_message p text))"
  by (simp add: file_content_message_def)

lemma marked_append: "marked p (h @ [m]) = marked p h @ (if sublist (file_marker p) (content m) then [m] else [])"
  by (simp add: marked_def)

lemma list_ex_marked: "list_ex (\<lambda>msg. sublist (file_marker p) (content msg)) h \<longleftrightarrow> marked p h \<noteq> []"
  by (simp add: marked_def list_ex_iff filter_empty_conv)

text \<open>
  Claim C2, as the program has it. \<open>ensure_file_in_context\<close> appends a file-content
  message for the resolved path only when no message of the log carries the marker of
  that path: a log that is marked for the path stays as it is, a log with at most one
  message for the path keeps at most one, and a second call changes nothing.
\<close>

theorem ensure_file_in_context_adds_once:
  assumes "normalize_path cwd file_path = Inr np"
    and "ensure_file_in_context cwd fs file_path hist = Inr (ok, hist')"
  shows "(marked np hist \<noteq> [] \<longrightarrow> hist' = hist)
       \<and> (length (marked np hist) \<le> 1 \<longrightarrow> length (marked np hist') \<le> 1)
       \<and> (ok \<longrightarrow> ensure_file_in_context cwd fs file_path hist' = Inr (True, hist'))"
  using assms
  by (auto simp: ensure_file_in_context_def list_ex_marked marked_append marker_in_message
      split: sum.splits if_splits)

theorem ensure_file_in_context_adds_once_witness:
  "normalize_path ''/ws'' ''f.txt'' = Inr ''/ws/f.txt''
   \<and> ensure_file_in_context ''/ws'' (Map.empty(''/ws/f.txt'' \<mapsto> ''v1'')) ''f.txt'' initial_history
       = Inr (True, initial_history @ [file_content_message ''/ws/f.txt'' ''v1''])
   \<and> length (marked ''/ws/f.txt'' initial_history) \<le> 1
   \<and> length (marked ''/ws/f.txt'' (initial_history @ [file_content_message ''/ws/f.txt'' ''v1''])) \<le> 1
   \<and> ensure_file_in_context ''/ws'' (Map.empty(''/ws/f.txt'' \<mapsto> ''v1'')) ''f.txt''
         (initial_history @ [file_content_message ''/ws/f.txt'' ''v1''])
       = Inr (True, initial_history @ [file_content_message ''/ws/f.txt'' ''v1''])"
proof -
  have n: "normalize_path ''/ws'' ''f.txt'' = Inr ''/ws/f.txt''"
    by (simp add: normalize_path_def normalize_path_with_def resolve_plain_def absolute_text_def Path_def absolute_def resolve_def path_str_def)
  have m: "marked ''/ws/f.txt'' initial_history = []"
    by code_simp
  have e: "ensure_file_in_context ''/ws'' (Map.empty(''/ws/f.txt'' \<mapsto> ''v1'')) ''f.txt'' initial_history
       = Inr (True, initial_history @ [file_content_message ''/ws/f.txt'' ''v1''])"
    using m by (simp add: ensure_file_in_context_def n read_local_file_def canonical_def Path_def
        resolve_def path_str_def list_ex_marked)
  from ensure_file_in_context_adds_once[OF n e] n e m show ?thesis by simp
qed

text \<open>
  The other ways of adding a file content do not look at the log. Adding the same file
  twice with the add command leaves two file-content messages for its path, and so does
  creating a file whose content is already in the log.
\<close>

theorem second_file_content_counterexample:
  "add_file_command ''/ws'' (Map.empty(''/ws/f.txt'' \<mapsto> ''v1'')) ''f.txt'' initial_history
       = Inr (initial_history @ [file_content_message ''/ws/f.txt'' ''v1''])
   \<and> add_file_command ''/ws'' (Map.empty(''/ws/f.txt'' \<mapsto> ''v1'')) ''f.txt''
         (initial_history @ [file_content_message ''/ws/f.txt'' ''v1''])
       = Inr (initial_history @ [file_content_message ''/ws/f.txt'' ''v1'',
                                 file_content_message ''/ws/f.txt'' ''v1''])
   \<and> snd (snd (create_file ''/ws'' ''f.txt'' ''v2'' False [] (Map.empty(''/ws/f.txt'' \<mapsto> ''v1''))
         (initial_history @ [file_content_message ''/ws/f.txt'' ''v1''])))
       = initial_history @ [file_content_message ''/ws/f.txt'' ''v1'',
           system_message (''File operation: Created/updated file at '' @ quote @ ''f.txt'' @ quote),
           file_content_message ''/ws/f.txt'' ''v2'']
   \<and> length (marked ''/ws/f.txt'' (initial_history @ [file_content_message ''/ws/f.txt'' ''v1'',
                                 file_content_message ''/ws/f.txt'' ''v1''])) = 2
   \<and> length (marked ''/ws/f.txt'' (initial_history @ [file_content_message ''/ws/f.txt'' ''v1'',
           system_message (''File operation: Created/updated file at '' @ quote @ ''f.txt'' @ quote),
           file_content_message ''/ws/f.txt'' ''v2''])) = 2"
proof -
  have n: "normalize_path ''/ws'' ''f.txt'' = Inr ''/ws/f.txt''"
    by (simp add: normalize_path_def normalize_path_with_def resolve_plain_def absolute_text_def Path_def absolute_def resolve_def path_str_def)
  have c: "canonical ''/ws'' ''/ws/f.txt'' = ''/ws/f.txt''"
    by (simp add: canonical_def Path_def resolve_def path_str_def)
  have m: "marked ''/ws/f.txt'' initial_history = []"
    by code_simp
  have o: "\<not> sublist (file_marker ''/ws/f.txt'')
      (content (system_message (''File operation: Created/updated file at '' @ quote @ ''f.txt'' @ quote)))"
    by code_simp
  have a: "add_file_command ''/ws'' (Map.empty(''/ws/f.txt'' \<mapsto> ''v1'')) ''f.txt'' h
       = Inr (h @ [file_content_message ''/ws/f.txt'' ''v1''])" for h
    by (simp add: add_file_command_def n read_local_file_def c)
  have p: "path_str (Path ''f.txt'') = ''f.txt''" "parts (Path ''f.txt'') = [''f.txt'']"
    by (simp_all add: Path_def path_str_def parts_def)
  have cr: "snd (snd (create_file ''/ws'' ''f.txt'' ''v2'' False [] fs h))
       = h @ [system_message (''File operation: Created/updated file at '' @ quote @ ''f.txt'' @ quote),
           file_content_message ''/ws/f.txt'' ''v2'']" for fs h
    by (simp add: create_file_def p n)
  have split: "marked q (h @ k) = marked q h @ marked q k" for q h k
    by (simp add: marked_def)
  have two: "length (marked ''/ws/f.txt'' (initial_history @ [file_content_message ''/ws/f.txt'' ''v1'',
                                 file_content_message ''/ws/f.txt'' ''v1''])) = 2"
    unfolding split m by (simp add: marked_def marker_in_message)
  have two': "length (marked ''/ws/f.txt'' (initial_history @ [file_content_message ''/ws/f.txt'' ''v1'',
           system_message (''File operation: Created/updated file at '' @ quote @ ''f.txt'' @ quote),
           file_content_message ''/ws/f.txt'' ''v2''])) = 2"
    unfolding split m using o by (simp add: marked_def marker_in_message)
  have a2: "add_file_command ''/ws'' (Map.empty(''/ws/f.txt'' \<mapsto> ''v1'')) ''f.txt''
         (initial_history @ [file_content_message ''/ws/f.txt'' ''v1''])
       = Inr (initial_history @ [file_content_message ''/ws/f.txt'' ''v1'',
                                 file_content_message ''/ws/f.txt'' ''v1''])"
    unfolding a by simp
  have c2: "snd (snd (create_file ''/ws'' ''f.txt'' ''v2'' False [] (Map.empty(''/ws/f.txt'' \<mapsto> ''v1''))
         (initial_history @ [file_content_message ''/ws/f.txt'' ''v1''])))
       = initial_history @ [file_content_message ''/ws/f.txt'' ''v1'',
           system_message (''File operation: Created/updated file at '' @ quote @ ''f.txt'' @ quote),
           file_content_message ''/ws/f.txt'' ''v2'']"
    unfolding cr by simp
  from a[of initial_history] a2 c2 two two' show ?thesis by blast
qed

section \<open>Properties of the confirmation of a write\<close>

text \<open>
  With confirmation required, an answer that is neither empty nor \<open>y\<close> (after stripping
  and lower-casing) leaves the file system and the log unchanged and never creates the
  file; the result is \<open>Skipped\<close> when the checks on the path and the size pass.
\<close>

lemma negative_answer_changes_nothing:
  assumes "lower_points (strip answer) \<noteq> code_points ''y''" and "lower_points (strip answer) \<noteq> []"
  shows "snd (create_file cwd p body True answer fs hist) = (fs, hist)
       \<and> fst (create_file cwd p body True answer fs hist) \<noteq> Created
       \<and> (\<not> list_ex (prefix ''~'') (parts (Path p))
            \<and> normalize_path cwd (path_str (Path p)) = Inr np \<and> length body \<le> 5000000
          \<longrightarrow> fst (create_file cwd p body True answer fs hist) = Skipped)"
  using assms by (auto simp: create_file_def Let_def split: sum.splits)

lemma negative_answer_example:
  "lower_points (strip (code_points '' N '')) = code_points ''n''
   \<and> fst (create_file ''/ws'' ''a.txt'' ''new'' True (code_points '' N '')
        (Map.empty(''/ws/a.txt'' \<mapsto> ''old'')) []) = Skipped"
proof -
  have s: "lower_points (strip (code_points '' N '')) = code_points ''n''"
    by code_simp
  have n: "\<not> list_ex (prefix ''~'') (parts (Path ''a.txt''))"
    "normalize_path ''/ws'' (path_str (Path ''a.txt'')) = Inr ''/ws/a.txt''"
    by (simp_all add: normalize_path_def normalize_path_with_def resolve_plain_def absolute_text_def
        Path_def absolute_def path_str_def parts_def)
  have "code_points ''n'' \<noteq> code_points ''y''" "code_points ''n'' \<noteq> []"
    by (simp_all add: code_points_def)
  with negative_answer_changes_nothing[where answer = "code_points '' N ''" and cwd = "''/ws''"
      and p = "''a.txt''" and np = "''/ws/a.txt''" and body = "''new''"] s n
  show ?thesis by simp
qed

text \<open>A no-break space before the answer is stripped like a blank.\<close>

lemma no_break_space_is_stripped:
  "lower_points (strip [160, 89]) = code_points ''y''"
  by code_simp

text \<open>
  Claim C5 at the empty answer. The claim asks for \<open>Skipped\<close> and no write. The guard
  of \<open>create_file\<close> is \<open>user_confirm != 'y' and user_confirm\<close>: the empty answer does
  not pass it, so the file is written, although the comment on the guard names the
  skipped prompt together with the answer \<open>n\<close>, and although the question of \<open>main\<close>
  before the edits takes the same answer as a refusal.
\<close>

theorem empty_answer_writes_the_file:
  "lower_points (strip []) = []
   \<and> fst (create_file ''/ws'' ''a.txt'' ''new'' True [] (Map.empty(''/ws/a.txt'' \<mapsto> ''old'')) []) = Created
   \<and> fst (snd (create_file ''/ws'' ''a.txt'' ''new'' True [] (Map.empty(''/ws/a.txt'' \<mapsto> ''old'')) []))
        ''/ws/a.txt'' = Some ''new''
   \<and> \<not> edits_confirmed []"
  by (simp add: create_file_def normalize_path_def normalize_path_with_def resolve_plain_def
      absolute_text_def Path_def absolute_def resolve_def path_str_def
      parts_def strip_def lower_points_def code_points_def canonical_def edits_confirmed_def)

section \<open>Properties of the rate limiter\<close>

text \<open>
  Claim C7, as the program has it. A limiter with \<open>max_calls = 0\<close> is constructed like
  any other; its first acquisition fails with \<open>IndexError\<close>, whatever the clock says.
\<close>

theorem zero_max_calls_accepted:
  "RateLimiter 0 p = Inr \<lparr> max_calls = 0, period = p, timestamps = [] \<rparr>
   \<and> acquire \<lparr> max_calls = 0, period = p, timestamps = [] \<rparr> now woke = Inl IndexError"
  by (simp add: RateLimiter_def acquire_def)

text \<open>
  The constructor does not reject \<open>max_calls = 0\<close>.
\<close>

theorem zero_max_calls_counterexample:
  "\<not> (\<exists>e. RateLimiter 0 1 = Inl e)"
  by (simp add: RateLimiter_def)

text \<open>
  Claim C6 on the limiter of the program (five calls per second), with a clock that
  reads whole seconds and a sleep that lasts exactly as long as asked. Five calls are
  admitted at 100; the sixth sleeps one second and is admitted at 101. The entries of 100
  are then exactly one period old, so they do not expire, and the time to wait computed
  from them is 0: five more calls are admitted at 101 at once. Six calls are admitted at
  the instant 101, and the window holds eleven entries, none older than the period.
\<close>

theorem boundary_admissions_exceed_limit:
  "RateLimiter 5 1 = Inr \<lparr> max_calls = 5, period = 1, timestamps = [] \<rparr>
   \<and> honest_clock \<lparr> max_calls = 5, period = 1, timestamps = [] \<rparr> 100
        [(100, 100), (100, 100), (100, 100), (100, 100), (100, 100), (100, 101),
         (101, 101), (101, 101), (101, 101), (101, 101), (101, 101)]
   \<and> acquire_all \<lparr> max_calls = 5, period = 1, timestamps = [] \<rparr>
        [(100, 100), (100, 100), (100, 100), (100, 100), (100, 100), (100, 101),
         (101, 101), (101, 101), (101, 101), (101, 101), (101, 101)]
       = Inr ([100, 100, 100, 100, 100, 101, 101, 101, 101, 101, 101],
              \<lparr> max_calls = 5, period = 1,
                timestamps = [100, 100, 100, 100, 100, 101, 101, 101, 101, 101, 101] \<rparr>)
   \<and> admitted_in 101 101 [100, 100, 100, 100, 100, 101, 101, 101, 101, 101, 101] = 6
   \<and> length (filter (\<lambda>t. 101 - t \<le> 1) [100, 100, 100, 100, 100, 101, 101, 101, 101, 101, 101 :: rat]) = 11"
  by (simp add: RateLimiter_def acquire_def time_to_wait_def admitted_in_def)

section \<open>Properties of trimming the log\<close>

lemma filter_drop_all: "\<forall>x\<in>set xs. P x \<Longrightarrow> filter P (drop k xs) = drop k xs"
  by (metis filter_True in_set_dropD)

lemma filter_drop_none: "\<forall>x\<in>set xs. \<not> P x \<Longrightarrow> filter P (drop k xs) = []"
  by (metis filter_False in_set_dropD)

lemma last_n_short: "length xs \<le> n \<Longrightarrow> last_n n xs = xs"
  by (simp add: last_n_def)

lemma trim_conversation_history_eq:
  "trim_conversation_history h =
     filter (\<lambda>m. role m = System) h @ last_n (2 * max_pairs) (filter (\<lambda>m. role m \<noteq> System) h)"
  by (simp add: trim_conversation_history_def Let_def last_n_short mult.commute)

text \<open>
  Claim C10. The trimmed log keeps every system message, in order; its other messages
  are the last \<open>2 * max_pairs\<close> other messages of the log, in order; the system
  messages all come first; and the number of other messages kept is the smaller of 20 and
  their number, counted one by one.
\<close>

theorem trim_systems_first_and_bounded:
  "filter (\<lambda>m. role m = System) (trim_conversation_history h) = filter (\<lambda>m. role m = System) h
   \<and> filter (\<lambda>m. role m \<noteq> System) (trim_conversation_history h)
       = last_n (2 * max_pairs) (filter (\<lambda>m. role m \<noteq> System) h)
   \<and> trim_conversation_history h
       = filter (\<lambda>m. role m = System) (trim_conversation_history h)
         @ filter (\<lambda>m. role m \<noteq> System) (trim_conversation_history h)
   \<and> length (filter (\<lambda>m. role m \<noteq> System) (trim_conversation_history h))
       = min 20 (length (filter (\<lambda>m. role m \<noteq> System) h))"
proof -
  let ?sys = "filter (\<lambda>m. role m = System) h"
  let ?oth = "filter (\<lambda>m. role m \<noteq> System) h"
  let ?k = "length ?oth - 2 * max_pairs"
  have a: "filter (\<lambda>m. role m = System) (drop ?k ?oth) = []"
    by (rule filter_drop_none) simp
  have b: "filter (\<lambda>m. role m \<noteq> System) (drop ?k ?oth) = drop ?k ?oth"
    by (rule filter_drop_all) simp
  have s: "filter (\<lambda>m. role m = System) (trim_conversation_history h) = ?sys"
    using a by (simp add: trim_conversation_history_eq last_n_def)
  have o: "filter (\<lambda>m. role m \<noteq> System) (trim_conversation_history h) = last_n (2 * max_pairs) ?oth"
    using b by (simp add: trim_conversation_history_eq last_n_def)
  have l: "length (last_n (2 * max_pairs) ?oth) = min 20 (length ?oth)"
    by (simp add: last_n_def max_pairs_def)
  show ?thesis
    unfolding s o using l by (simp add: trim_conversation_history_eq)
qed

section \<open>Properties of rebuilding the log\<close>

lemma classify_filter:
  "classify rest fc ua = (fc @ filter is_file_content rest, ua @ filter is_conversational rest)"
  by (induction rest arbitrary: fc ua) (auto simp: is_file_content_def is_conversational_def)

lemma even_prefix: "(if length xs mod 2 \<noteq> 0 then butlast xs else xs) = take (2 * (length xs div 2)) xs"
proof (cases "length xs mod 2 = 0")
  case True
  then have "2 * (length xs div 2) = length xs" by presburger
  with True show ?thesis by simp
next
  case False
  then have "2 * (length xs div 2) = length xs - 1" by presburger
  with False show ?thesis by (simp add: butlast_conv_take)
qed

lemma rebuild_history_eq:
  "rebuild_history new (first # rest) =
     Inr (first # filter is_file_content rest
          @ take (2 * (length (filter is_conversational rest) div 2)) (filter is_conversational rest)
          @ [\<lparr> role = User, content = new \<rparr>])"
proof -
  have "rebuild_history new (first # rest) =
     Inr (first # filter is_file_content rest
          @ (if length (filter is_conversational rest) mod 2 \<noteq> 0
             then butlast (filter is_conversational rest) else filter is_conversational rest)
          @ [\<lparr> role = User, content = new \<rparr>])"
    by (simp add: rebuild_history_def classify_filter Let_def)
  then show ?thesis by (simp only: even_prefix)
qed

lemma alternating_exchanges:
  "alternating xs \<Longrightarrow> exchanges (take (2 * (length xs div 2)) xs)"
  by (induction xs rule: alternating.induct) auto

lemma not_both: "is_file_content m \<Longrightarrow> \<not> is_conversational m"
  by (auto simp: is_file_content_def is_conversational_def)

lemma rebuild_history_again:
  assumes "rebuild_history new (first # rest) = Inr h1"
  shows "rebuild_history new h1 = Inr h1"
proof -
  let ?F = "filter is_file_content rest"
  let ?C = "filter is_conversational rest"
  let ?K = "take (2 * (length ?C div 2)) ?C"
  let ?u = "\<lparr> role = User, content = new \<rparr>"
  have h1: "h1 = first # (?F @ ?K @ [?u])" using assms by (simp add: rebuild_history_eq)
  have K: "set ?K \<subseteq> set ?C" by (rule set_take_subset)
  have fF: "filter is_file_content ?F = ?F" by simp
  have fK: "filter is_file_content ?K = []"
    using K by (auto simp: filter_empty_conv dest: not_both)
  have cF: "filter is_conversational ?F = []"
    by (auto simp: filter_empty_conv dest: not_both)
  have cK: "filter is_conversational ?K = ?K"
    using K by (auto simp: filter_id_conv)
  have u: "\<not> is_file_content ?u" "is_conversational ?u"
    by (simp_all add: is_file_content_def is_conversational_def)
  have "2 * (length ?C div 2) \<le> length ?C" by presburger
  then have lenK: "length ?K = 2 * (length ?C div 2)" by simp
  have f: "filter is_file_content (?F @ ?K @ [?u]) = ?F" using fF fK u by simp
  have c: "filter is_conversational (?F @ ?K @ [?u]) = ?K @ [?u]" using cF cK u by simp
  have "length (?K @ [?u]) = 2 * (length ?C div 2) + 1" using lenK by simp
  then have "length (?K @ [?u]) div 2 = length ?C div 2" by presburger
  then have "take (2 * (length (?K @ [?u]) div 2)) (?K @ [?u]) = take (length ?K) (?K @ [?u])"
    using lenK by metis
  then have t: "take (2 * (length (?K @ [?u]) div 2)) (?K @ [?u]) = ?K" by simp
  show ?thesis unfolding h1 rebuild_history_eq f c t ..
qed

text \<open>
  Claim C8. For a log with a first message, the rebuilt log is that first message, the
  file-content messages of the rest, the conversational messages of the rest without the
  last one when their number is odd, and the new user message. When the conversation
  alternates between user and assistant, as it does in every log the program reaches
  (\<open>reachable_alternating\<close> below), what is kept of it consists of whole exchanges. Rebuilding
  the rebuilt log with the same message gives the same log, hence the same number of
  messages.
\<close>

theorem rebuild_history_result:
  "rebuild_history new (first # rest) =
     Inr (first # filter is_file_content rest
          @ take (2 * (length (filter is_conversational rest) div 2)) (filter is_conversational rest)
          @ [\<lparr> role = User, content = new \<rparr>])
   \<and> (alternating (filter is_conversational rest)
        \<longrightarrow> exchanges (take (2 * (length (filter is_conversational rest) div 2))
                          (filter is_conversational rest)))
   \<and> (\<exists>h1. rebuild_history new (first # rest) = Inr h1 \<and> rebuild_history new h1 = Inr h1)"
proof -
  obtain h1 where h1: "rebuild_history new (first # rest) = Inr h1"
    by (simp add: rebuild_history_eq)
  then have "rebuild_history new h1 = Inr h1" by (rule rebuild_history_again)
  with h1 have "\<exists>h1. rebuild_history new (first # rest) = Inr h1 \<and> rebuild_history new h1 = Inr h1"
    by blast
  then show ?thesis
    using rebuild_history_eq[of new first rest] alternating_exchanges[of "filter is_conversational rest"]
    by blast
qed

theorem rebuild_history_result_witness:
  "alternating (filter is_conversational
      [file_content_message ''/ws/a.py'' ''x'', system_message ''File operation: done'',
       \<lparr> role = User, content = ''u1'' \<rparr>, \<lparr> role = Assistant, content = ''a1'' \<rparr>,
       \<lparr> role = User, content = ''u2'' \<rparr>])
   \<and> rebuild_history ''q''
       (system_message system_PROMPT #
        [file_content_message ''/ws/a.py'' ''x'', system_message ''File operation: done'',
         \<lparr> role = User, content = ''u1'' \<rparr>, \<lparr> role = Assistant, content = ''a1'' \<rparr>,
         \<lparr> role = User, content = ''u2'' \<rparr>])
     = Inr [system_message system_PROMPT, file_content_message ''/ws/a.py'' ''x'',
            \<lparr> role = User, content = ''u1'' \<rparr>, \<lparr> role = Assistant, content = ''a1'' \<rparr>,
            \<lparr> role = User, content = ''q'' \<rparr>]
   \<and> exchanges [\<lparr> role = User, content = ''u1'' \<rparr>, \<lparr> role = Assistant, content = ''a1'' \<rparr>]"
proof -
  let ?rest = "[file_content_message ''/ws/a.py'' ''x'', system_message ''File operation: done'',
       \<lparr> role = User, content = ''u1'' \<rparr>, \<lparr> role = Assistant, content = ''a1'' \<rparr>,
       \<lparr> role = User, content = ''u2'' \<rparr>]"
  have c: "filter is_conversational ?rest
      = [\<lparr> role = User, content = ''u1'' \<rparr>, \<lparr> role = Assistant, content = ''a1'' \<rparr>,
         \<lparr> role = User, content = ''u2'' \<rparr>]"
    by (simp add: is_conversational_def file_content_message_def system_message_def)
  have f1: "is_file_content (file_content_message ''/ws/a.py'' ''x'')" by code_simp
  have f2: "\<not> is_file_content (system_message ''File operation: done'')" by code_simp
  have f: "filter is_file_content ?rest = [file_content_message ''/ws/a.py'' ''x'']"
    using f1 f2 by (simp add: is_file_content_def)
  have a: "alternating (filter is_conversational ?rest)" unfolding c by simp
  from rebuild_history_result[of "''q''" "system_message system_PROMPT" ?rest] a
  show ?thesis unfolding c f by simp
qed

lemma exchanges_alternating: "exchanges xs \<Longrightarrow> alternating xs"
  by (induction xs rule: exchanges.induct) auto

lemma exchanges_then_user: "exchanges xs \<Longrightarrow> role u = User \<Longrightarrow> alternating (xs @ [u])"
  by (induction xs rule: exchanges.induct) auto

lemma exchanges_then_pair:
  "exchanges xs \<Longrightarrow> role u = User \<Longrightarrow> role a = Assistant \<Longrightarrow> exchanges (xs @ [u, a])"
  by (induction xs rule: exchanges.induct) auto

lemma conversational_rebuilt:
  assumes "rebuild_history m (first # rest) = Inr h'"
  shows "\<exists>rest'. h' = first # rest'
          \<and> filter is_conversational rest'
             = take (2 * (length (filter is_conversational rest) div 2)) (filter is_conversational rest)
               @ [\<lparr> role = User, content = m \<rparr>]"
proof -
  let ?C = "filter is_conversational rest"
  let ?K = "take (2 * (length ?C div 2)) ?C"
  have K: "set ?K \<subseteq> set ?C" by (rule set_take_subset)
  have cK: "filter is_conversational ?K = ?K" using K by (auto simp: filter_id_conv)
  have cF: "filter is_conversational (filter is_file_content rest) = []"
    by (auto simp: filter_empty_conv dest: not_both)
  have u: "is_conversational \<lparr> role = User, content = m \<rparr>" by (simp add: is_conversational_def)
  from assms have "h' = first # (filter is_file_content rest @ ?K @ [\<lparr> role = User, content = m \<rparr>])"
    by (simp add: rebuild_history_eq)
  moreover have "filter is_conversational (filter is_file_content rest @ ?K @ [\<lparr> role = User, content = m \<rparr>])
      = ?K @ [\<lparr> role = User, content = m \<rparr>]"
    using cK cF u by simp
  ultimately show ?thesis by blast
qed

lemma reachable_alternating:
  "reachable h \<Longrightarrow>
     \<exists>rest. h = system_message system_PROMPT # rest \<and> alternating (filter is_conversational rest)"
proof (induction rule: reachable.induct)
  case start
  then show ?case by (simp add: initial_history_def)
next
  case (system_appended h s)
  then show ?case by (auto simp: is_conversational_def system_message_def)
next
  case (request_failed h m h')
  then obtain rest where h: "h = system_message system_PROMPT # rest"
    and a: "alternating (filter is_conversational rest)" by blast
  from conversational_rebuilt[OF request_failed.hyps(2)[unfolded h]] obtain rest' where
    r: "h' = system_message system_PROMPT # rest'"
    "filter is_conversational rest'
       = take (2 * (length (filter is_conversational rest) div 2)) (filter is_conversational rest)
         @ [\<lparr> role = User, content = m \<rparr>]" by blast
  have "alternating (filter is_conversational rest')"
    unfolding r(2) by (rule exchanges_then_user[OF alternating_exchanges[OF a]]) simp
  with r(1) show ?case by blast
next
  case (request_answered h m h' files reply)
  then obtain rest where h: "h = system_message system_PROMPT # rest"
    and a: "alternating (filter is_conversational rest)" by blast
  from conversational_rebuilt[OF request_answered.hyps(2)[unfolded h]] obtain rest' where
    r: "h' = system_message system_PROMPT # rest'"
    "filter is_conversational rest'
       = take (2 * (length (filter is_conversational rest) div 2)) (filter is_conversational rest)
         @ [\<lparr> role = User, content = m \<rparr>]" by blast
  let ?new = "rest' @ map system_message files @ [\<lparr> role = Assistant, content = reply \<rparr>]"
  have s: "filter is_conversational (map system_message files) = []"
    by (auto simp: filter_empty_conv is_conversational_def system_message_def)
  have "filter is_conversational ?new
      = take (2 * (length (filter is_conversational rest) div 2)) (filter is_conversational rest)
        @ [\<lparr> role = User, content = m \<rparr>, \<lparr> role = Assistant, content = reply \<rparr>]"
    using r(2) s by (simp add: is_conversational_def)
  moreover have "exchanges (take (2 * (length (filter is_conversational rest) div 2)) (filter is_conversational rest)
        @ [\<lparr> role = User, content = m \<rparr>, \<lparr> role = Assistant, content = reply \<rparr>])"
    by (rule exchanges_then_pair[OF alternating_exchanges[OF a]]) simp_all
  ultimately have "alternating (filter is_conversational ?new)"
    by (simp add: exchanges_alternating)
  with r(1) show ?case by auto
qed

section \<open>Properties of the directory ingester\<close>

lemma skip_within_limits: "within_limits (skip label st) = within_limits st"
  by (simp add: skip_def within_limits_def)

lemma scan_file_cases:
  "(\<exists>label. scan_file cwd r f st = skip label st)
   \<or> (\<exists>n np body. esize f = Some n \<and> total_size st + n \<le> MAX_TOTAL_SIZE
         \<and> scan_file cwd r f st =
             st \<lparr> log := log st @ [file_content_message np body],
                  added_files := added_files st @ [np],
                  total_files_processed := total_files_processed st + 1,
                  total_size := total_size st + n,
                  added_sizes := added_sizes st @ [n] \<rparr>)"
  unfolding scan_file_def Let_def
  by (simp split: option.split sum.split error.split) blast

lemma scan_file_within_limits:
  assumes "within_limits st" and "\<not> limit_reached st"
  shows "within_limits (scan_file cwd r f st)"
proof -
  from scan_file_cases[of cwd r f st] show ?thesis
  proof (elim disjE exE conjE)
    fix label assume "scan_file cwd r f st = skip label st"
    with assms(1) show ?thesis by (simp add: skip_within_limits)
  next
    fix n np body
    assume "esize f = Some n" "total_size st + n \<le> MAX_TOTAL_SIZE"
      and e: "scan_file cwd r f st =
             st \<lparr> log := log st @ [file_content_message np body],
                  added_files := added_files st @ [np],
                  total_files_processed := total_files_processed st + 1,
                  total_size := total_size st + n,
                  added_sizes := added_sizes st @ [n] \<rparr>"
    with assms show ?thesis
      unfolding e by (simp add: within_limits_def limit_reached_def)
  qed
qed

lemma scan_files_within_limits:
  "within_limits st \<Longrightarrow> within_limits (scan_files cwd r fs st)"
  by (induction fs arbitrary: st) (simp_all add: scan_file_within_limits)

lemma walk_within_limits:
  shows "within_limits st \<Longrightarrow> within_limits (walk cwd r d st)"
    and "within_limits st \<Longrightarrow> within_limits (walk_subdirs cwd r ds st)"
  by (induction cwd r d st and cwd r ds st rule: walk_walk_subdirs.induct)
     (simp_all add: scan_files_within_limits)

lemma scan_files_stopped: "limit_reached st \<Longrightarrow> scan_files cwd r fs st = st"
  by (cases fs) simp_all

lemma walk_stopped: "limit_reached st \<Longrightarrow> walk cwd r d st = st"
  by (cases d) simp

lemma walk_subdirs_stopped: "limit_reached st \<Longrightarrow> walk_subdirs cwd r ds st = st"
  by (induction ds) (simp_all add: walk_stopped)

lemma scan_file_over_total:
  assumes "esize f = Some n" and "total_size st + n > MAX_TOTAL_SIZE"
  shows "added_files (scan_file cwd r f st) = added_files st
       \<and> total_size (scan_file cwd r f st) = total_size st
       \<and> log (scan_file cwd r f st) = log st
       \<and> length (skipped_files (scan_file cwd r f st)) = length (skipped_files st) + 1"
proof -
  from scan_file_cases[of cwd r f st] assms obtain label where
    "scan_file cwd r f st = skip label st" by auto
  then show ?thesis by (simp add: skip_def)
qed

text \<open>
  Claim C9. After a scan of any tree, from any log, the reported total size is at most
  50,000,000 and the number of processed files at most 1000; one file is listed as added
  for each processed one, and the total is the sum of their sizes. A file whose size
  would take the total past the limit is skipped: nothing is added and the counters and
  the log stay as they are. Once a limit is reached, the rest of the files and of the
  directories leave the state as it is.
\<close>

theorem ingest_within_limits:
  "total_size (add_directory_to_conversation cwd directory_path tree hist) \<le> 50000000
   \<and> total_files_processed (add_directory_to_conversation cwd directory_path tree hist) \<le> 1000
   \<and> length (added_files (add_directory_to_conversation cwd directory_path tree hist))
       = total_files_processed (add_directory_to_conversation cwd directory_path tree hist)
   \<and> sum_list (added_sizes (add_directory_to_conversation cwd directory_path tree hist))
       = total_size (add_directory_to_conversation cwd directory_path tree hist)
   \<and> (esize f = Some n \<and> total_size st + n > MAX_TOTAL_SIZE
        \<longrightarrow> added_files (scan_file cwd r f st) = added_files st
          \<and> total_size (scan_file cwd r f st) = total_size st
          \<and> log (scan_file cwd r f st) = log st
          \<and> length (skipped_files (scan_file cwd r f st)) = length (skipped_files st) + 1)
   \<and> (limit_reached st
        \<longrightarrow> scan_files cwd r fs st = st \<and> walk cwd r d st = st \<and> walk_subdirs cwd r ds st = st)"
proof -
  have "within_limits (empty_scan hist)"
    by (simp add: within_limits_def empty_scan_def)
  then have "within_limits (add_directory_to_conversation cwd directory_path tree hist)"
    unfolding add_directory_to_conversation_def by (rule walk_within_limits(1))
  then have a: "total_size (add_directory_to_conversation cwd directory_path tree hist) \<le> 50000000
   \<and> total_files_processed (add_directory_to_conversation cwd directory_path tree hist) \<le> 1000
   \<and> length (added_files (add_directory_to_conversation cwd directory_path tree hist))
       = total_files_processed (add_directory_to_conversation cwd directory_path tree hist)
   \<and> sum_list (added_sizes (add_directory_to_conversation cwd directory_path tree hist))
       = total_size (add_directory_to_conversation cwd directory_path tree hist)"
    by (simp add: within_limits_def MAX_TOTAL_SIZE_def max_files_def)
  have b: "esize f = Some n \<and> total_size st + n > MAX_TOTAL_SIZE
        \<longrightarrow> added_files (scan_file cwd r f st) = added_files st
          \<and> total_size (scan_file cwd r f st) = total_size st
          \<and> log (scan_file cwd r f st) = log st
          \<and> length (skipped_files (scan_file cwd r f st)) = length (skipped_files st) + 1"
    using scan_file_over_total[of f n st cwd r] by blast
  have c: "limit_reached st
        \<longrightarrow> scan_files cwd r fs st = st \<and> walk cwd r d st = st \<and> walk_subdirs cwd r ds st = st"
    by (simp add: scan_files_stopped walk_stopped walk_subdirs_stopped)
  from a b c show ?thesis by blast
qed

theorem ingest_within_limits_witness:
  "esize \<lparr> ename = ''a.py'', esize = Some 2, ebinary = False, eread = Inr ''xx'' \<rparr> = Some 2
   \<and> total_size ((empty_scan []) \<lparr> total_size := 49999999 \<rparr>) + 2 > MAX_TOTAL_SIZE
   \<and> added_files (scan_file ''/ws'' ''/ws/src''
         \<lparr> ename = ''a.py'', esize = Some 2, ebinary = False, eread = Inr ''xx'' \<rparr>
         ((empty_scan []) \<lparr> total_size := 49999999 \<rparr>)) = []
   \<and> total_size (scan_file ''/ws'' ''/ws/src''
         \<lparr> ename = ''a.py'', esize = Some 2, ebinary = False, eread = Inr ''xx'' \<rparr>
         ((empty_scan []) \<lparr> total_size := 49999999 \<rparr>)) = 49999999
   \<and> length (skipped_files (scan_file ''/ws'' ''/ws/src''
         \<lparr> ename = ''a.py'', esize = Some 2, ebinary = False, eread = Inr ''xx'' \<rparr>
         ((empty_scan []) \<lparr> total_size := 49999999 \<rparr>))) = 1
   \<and> limit_reached ((empty_scan []) \<lparr> total_files_processed := 1000 \<rparr>)
   \<and> walk ''/ws'' ''/ws/src''
        (Dir ''src'' [\<lparr> ename = ''a.py'', esize = Some 2, ebinary = False, eread = Inr ''xx'' \<rparr>] [])
        ((empty_scan []) \<lparr> total_files_processed := 1000 \<rparr>)
       = (empty_scan []) \<lparr> total_files_processed := 1000 \<rparr>"
proof -
  let ?f = "\<lparr> ename = ''a.py'', esize = Some 2, ebinary = False, eread = Inr ''xx'' \<rparr>"
  let ?st = "(empty_scan []) \<lparr> total_size := 49999999 \<rparr>"
  let ?st' = "(empty_scan []) \<lparr> total_files_processed := 1000 \<rparr>"
  have a: "esize ?f = Some 2 \<and> total_size ?st + 2 > MAX_TOTAL_SIZE"
    by (simp add: empty_scan_def MAX_TOTAL_SIZE_def)
  have b: "limit_reached ?st'" by (simp add: limit_reached_def empty_scan_def max_files_def)
  have e: "added_files ?st = []" "total_size ?st = 49999999" "skipped_files ?st = []"
    by (simp_all add: empty_scan_def)
  from ingest_within_limits[of "''/ws''" "''/ws/src''" "Dir ''src'' [?f] []" "[]" ?f 2 ?st "''/ws/src''"]
    a have t: "added_files (scan_file ''/ws'' ''/ws/src'' ?f ?st) = added_files ?st
          \<and> total_size (scan_file ''/ws'' ''/ws/src'' ?f ?st) = total_size ?st
          \<and> length (skipped_files (scan_file ''/ws'' ''/ws/src'' ?f ?st)) = length (skipped_files ?st) + 1"
    by blast
  from ingest_within_limits[of "''/ws''" "''/ws/src''" "Dir ''src'' [?f] []" "[]" ?f 2 ?st' "''/ws/src''" "[]" "Dir ''src'' [?f] []" "[]"]
    b have w: "walk ''/ws'' ''/ws/src'' (Dir ''src'' [?f] []) ?st' = ?st'" by blast
  from a b t w show ?thesis unfolding e by simp
qed

text \<open>
  A directory with \<open>a.py\<close>, the binary \<open>b.png\<close> and \<open>.git/config\<close>: only \<open>a.py\<close> is
  added; \<open>b.png\<close> is listed as skipped, and the hidden directory is not visited.
\<close>

lemma ingest_example:
  "added_files (add_directory_to_conversation ''/ws'' ''/ws/src''
        (Dir ''src'' [\<lparr> ename = ''a.py'', esize = Some 10, ebinary = False, eread = Inr ''xxxxxxxxxx'' \<rparr>,
                      \<lparr> ename = ''b.png'', esize = Some 9, ebinary = True, eread = Inr ''yy'' \<rparr>]
           [Dir ''.git'' [\<lparr> ename = ''config'', esize = Some 1, ebinary = False, eread = Inr ''c'' \<rparr>] []])
        []) = [''/ws/src/a.py'']
   \<and> skipped_files (add_directory_to_conversation ''/ws'' ''/ws/src''
        (Dir ''src'' [\<lparr> ename = ''a.py'', esize = Some 10, ebinary = False, eread = Inr ''xxxxxxxxxx'' \<rparr>,
                      \<lparr> ename = ''b.png'', esize = Some 9, ebinary = True, eread = Inr ''yy'' \<rparr>]
           [Dir ''.git'' [\<lparr> ename = ''config'', esize = Some 1, ebinary = False, eread = Inr ''c'' \<rparr>] []])
        []) = [''/ws/src/b.png'']"
proof -
  have n: "normalize_path ''/ws'' ''/ws/src/a.py'' = Inr ''/ws/src/a.py''"
    by (simp add: normalize_path_def normalize_path_with_def resolve_plain_def absolute_text_def Path_def absolute_def resolve_def path_str_def)
  have x: "splitext_ext ''a.py'' = ''.py''" "splitext_ext ''b.png'' = ''.png''"
    by (simp_all add: splitext_ext_def)
  have l: "lower ''.py'' = ''.py''" "lower ''.png'' = ''.png''"
    by code_simp+
  have j: "path_join ''/ws/src'' ''a.py'' = ''/ws/src/a.py''"
    "path_join ''/ws/src'' ''b.png'' = ''/ws/src/b.png''"
    by (simp_all add: path_join_def suffix_def)
  show ?thesis
    by (simp add: add_directory_to_conversation_def empty_scan_def scan_file_def Let_def
        limit_reached_def skip_def x l j n excluded_files_def excluded_extensions_def
        max_file_size_def MAX_TOTAL_SIZE_def max_files_def)
qed

end
